theory Spec2Isabelle
  imports Main "HOL-Library.Sublist"
begin

section \<open>The catalog\<close>

text \<open>
  A catalog entry. The routes modelled below read two of its fields, \<open>id\<close> and
  \<open>featured\<close>; \<open>slug\<close>, \<open>title\<close> and \<open>category\<close> are kept for illustration.
  The record is extensible, and every definition and theorem is stated for
  \<open>'a Game_scheme\<close>, so whatever further fields the entry has (tags, description,
  thumbnail, rating, plays, release date, ...) are carried along unread.
  The field \<open>id\<close> of the source is \<open>id_game\<close> here, since \<open>id\<close> is HOL's identity.
\<close>

record Game =
  id_game :: string
  slug :: string
  title :: string
  category :: string
  featured :: bool

section \<open>The game page: \<open>app/routes/games.$gameId.tsx\<close>\<close>

text \<open>
  The route parameters. \<open>params.gameId\<close> has the type \<open>string | undefined\<close>:
  \<open>None\<close> is \<open>undefined\<close>.
\<close>

record Params =
  gameId :: "string option"

text \<open>A thrown \<open>new Response(body, { status })\<close>.\<close>

datatype Response = Response string nat

text \<open>
  \<^verbatim>\<open>
  export const loader: LoaderFunction = async ({ params }) => {
    const game = games.find((g) => g.id === params.gameId);
    if (!game) {
      throw new Response("Game not found", { status: 404 });
    }
    return json({ game });
  };
  \<close>
  \<open>Array.prototype.find\<close> returns the first element satisfying the predicate, or
  \<open>undefined\<close>; \<open>List.find\<close> is the same function with \<open>None\<close> for \<open>undefined\<close>.
  The strict equality \<open>g.id === params.gameId\<close> compares a string with a string or
  \<open>undefined\<close>, and is false against \<open>undefined\<close>. A catalog entry is an object, so
  \<open>!game\<close> holds exactly when \<open>find\<close> returned \<open>undefined\<close>. The throw is \<open>Inl\<close>,
  the returned \<open>json({ game })\<close> is \<open>Inr game\<close>.
\<close>

definition loader_gameId :: "'a Game_scheme list \<Rightarrow> Params \<Rightarrow> Response + 'a Game_scheme" where
  "loader_gameId games params =
     (case find (\<lambda>g. Some (id_game g) = gameId params) games of
        None \<Rightarrow> Inl (Response ''Game not found'' 404)
      | Some game \<Rightarrow> Inr game)"

section \<open>The home page: \<open>loader\<close> and \<open>Index\<close>\<close>

text \<open>
  \<^verbatim>\<open>
  export async function loader() {
    const featuredGames = games.filter((game) => game.featured).slice(0, 3);
    return json({ featuredGames });
  }
  \<close>
  \<open>slice(0, 3)\<close> keeps the first three elements, or all of them when there are fewer.
\<close>

definition loader_index :: "'a Game_scheme list \<Rightarrow> 'a Game_scheme list" where
  "loader_index games = take 3 (filter (\<lambda>game. featured game) games)"

text \<open>
  The same expression with the literal \<open>3\<close> as a parameter: the catalog operation
  \<open>filterFeatured(limit)\<close>. The limit is a count, hence a natural number.
\<close>

definition filterFeatured :: "nat \<Rightarrow> 'a Game_scheme list \<Rightarrow> 'a Game_scheme list" where
  "filterFeatured limit games = take limit (filter (\<lambda>game. featured game) games)"

text \<open>
  The lookup \<open>games.find(game => game.id === id)\<close> that the effect of \<open>Index\<close> applies to
  every stored identifier: the catalog operation \<open>findById\<close>.
\<close>

definition findById :: "'a Game_scheme list \<Rightarrow> string \<Rightarrow> 'a Game_scheme option" where
  "findById games i = find (\<lambda>game. id_game game = i) games"

section \<open>Client-local storage and the recently-played list\<close>

text \<open>
  The module \<open>~/utils/localStorage\<close>, which exports \<open>getRecentlyPlayed\<close> and
  \<open>addToRecentlyPlayed\<close>, is imported by both routes, and its text is not among the
  sources. The definitions of this section are written from the specification.
\<close>

text \<open>
  Modelled from the spec: the persisted state layout, missing with
  \<open>~/utils/localStorage\<close>. One storage key holds a text, the JSON encoding of an array
  of strings. A stored text is taken by what a JSON parser makes of it: a text that is
  not JSON at all (\<open>Garbled\<close>, with the raw characters), or the JSON value it encodes.
\<close>

datatype json =
    JNull
  | JBool bool
  | JNumber int
  | JString string
  | JArray "json list"
  | JObject "(string \<times> json) list"

datatype stored = Garbled string | Encoded json

text \<open>
  Modelled from the spec: the failures of the storage layer, missing with
  \<open>~/utils/localStorage\<close>: storage that is disabled or blocked, a text that does not
  parse, and a parsed value that is not of the documented structure.
\<close>

datatype error = StorageUnavailable | SyntaxError | NotAStringArray

text \<open>
  Modelled from the spec: the injected storage dependency with its two operations
  \<open>get(key) -> string | absent\<close> and \<open>set(key, string)\<close>, for the single key of the
  recently-played list. \<open>Available None\<close> is the fresh store, where the key is absent.
\<close>

datatype localStorage = Unavailable | Available "stored option"

fun getItem :: "localStorage \<Rightarrow> error + stored option" where
  "getItem Unavailable = Inl StorageUnavailable"
| "getItem (Available v) = Inr v"

fun setItem :: "stored \<Rightarrow> localStorage \<Rightarrow> error + localStorage" where
  "setItem v Unavailable = Inl StorageUnavailable"
| "setItem v (Available old) = Inr (Available (Some v))"

text \<open>
  Modelled from the spec: the JSON-array-of-strings encoding, missing with
  \<open>~/utils/localStorage\<close>. Writing encodes the identifiers as an array of strings;
  reading parses the text and accepts it only if it is an array whose elements are all
  strings.
\<close>

definition JSON_stringify :: "string list \<Rightarrow> stored" where
  "JSON_stringify ids = Encoded (JArray (map JString ids))"

fun JSON_parse :: "stored \<Rightarrow> error + json" where
  "JSON_parse (Garbled raw) = Inl SyntaxError"
| "JSON_parse (Encoded j) = Inr j"

fun asString :: "json \<Rightarrow> string option" where
  "asString (JString s) = Some s"
| "asString j = None"

fun asStrings :: "json list \<Rightarrow> string list option" where
  "asStrings [] = Some []"
| "asStrings (j # js) =
     (case asString j of
        None \<Rightarrow> None
      | Some s \<Rightarrow> (case asStrings js of None \<Rightarrow> None | Some ss \<Rightarrow> Some (s # ss)))"

fun asStringArray :: "json \<Rightarrow> string list option" where
  "asStringArray (JArray js) = asStrings js"
| "asStringArray j = None"

definition parseIds :: "stored \<Rightarrow> error + string list" where
  "parseIds v =
     (case JSON_parse v of
        Inl e \<Rightarrow> Inl e
      | Inr j \<Rightarrow> (case asStringArray j of None \<Rightarrow> Inl NotAStringArray | Some ids \<Rightarrow> Inr ids))"

text \<open>
  Modelled from the spec: \<open>getRecentlyPlayed\<close>, missing with \<open>~/utils/localStorage\<close>.
  It reads the persisted sequence: the empty sequence when the storage is unavailable,
  when the key is absent, and when the value does not parse as a sequence of strings.
  It is a read: it is a function of the store and returns no new store.
\<close>

definition getRecentlyPlayed :: "localStorage \<Rightarrow> error + string list" where
  "getRecentlyPlayed st =
     (case getItem st of
        Inl e \<Rightarrow> Inr []
      | Inr None \<Rightarrow> Inr []
      | Inr (Some v) \<Rightarrow> (case parseIds v of Inl e \<Rightarrow> Inr [] | Inr ids \<Rightarrow> Inr ids))"

text \<open>
  Modelled from the spec: \<open>addToRecentlyPlayed\<close> (the spec's \<open>record\<close>), missing with
  \<open>~/utils/localStorage\<close>. It reads the current sequence, removes the identifier
  \<open>gid\<close> wherever it occurs, puts \<open>gid\<close> at the front, truncates to the capacity and
  writes the result back, replacing the prior value; with the storage unavailable it is
  a no-op.
  The capacity is an implementation-chosen constant (the spec suggests 10) and is a
  parameter here.
\<close>

definition addToRecentlyPlayed :: "nat \<Rightarrow> string \<Rightarrow> localStorage \<Rightarrow> error + localStorage" where
  "addToRecentlyPlayed capacity gid st =
     (case getRecentlyPlayed st of
        Inl e \<Rightarrow> Inl e
      | Inr current \<Rightarrow>
          (let updated = take capacity (gid # filter (\<lambda>i. i \<noteq> gid) current)
           in case setItem (JSON_stringify updated) st of
                Inl e \<Rightarrow> Inr st
              | Inr st' \<Rightarrow> Inr st'))"

text \<open>A sequence of \<open>record\<close> calls, one after the other; the first error ends it.\<close>

fun record_all :: "nat \<Rightarrow> string list \<Rightarrow> localStorage \<Rightarrow> error + localStorage" where
  "record_all capacity [] st = Inr st"
| "record_all capacity (g # gs) st =
     (case addToRecentlyPlayed capacity g st of
        Inl e \<Rightarrow> Inl e
      | Inr st' \<Rightarrow> record_all capacity gs st')"

section \<open>The home page's effect: resolving the recently-played list\<close>

text \<open>
  \<^verbatim>\<open>
  useEffect(() => {
    const recentGameIds = getRecentlyPlayed();
    const recentGames = recentGameIds
      .map((id: string) => games.find(game => game.id === id))
      .filter((game: Game | undefined): game is Game => game !== undefined);
    setRecentlyPlayed(recentGames);
  }, []);
  \<close>
  The effect is the spec's \<open>list()\<close>. It takes the catalog and the store, and returns the
  new value of the component state \<open>recentlyPlayed\<close> with the store as the effect leaves
  it; an exception escaping the effect would be \<open>Inl\<close>. The effect itself writes
  nothing to the store. \<open>undefined\<close> is \<open>None\<close>; after the filter every element is a
  game, which \<open>the\<close> unwraps.
\<close>

definition Index_effect ::
  "'a Game_scheme list \<Rightarrow> localStorage \<Rightarrow> error + ('a Game_scheme list \<times> localStorage)" where
  "Index_effect games st =
     (case getRecentlyPlayed st of
        Inl e \<Rightarrow> Inl e
      | Inr recentGameIds \<Rightarrow>
          (let recentGames =
                 map the (filter (\<lambda>game. game \<noteq> None)
                   (map (\<lambda>i. find (\<lambda>game. id_game game = i) games) recentGameIds))
           in Inr (recentGames, st)))"

text \<open>Two runs of the effect in a row, with nothing in between.\<close>

definition Index_effect_twice ::
  "'a Game_scheme list \<Rightarrow> localStorage
     \<Rightarrow> error + ('a Game_scheme list \<times> 'a Game_scheme list \<times> localStorage)" where
  "Index_effect_twice games st =
     (case Index_effect games st of
        Inl e \<Rightarrow> Inl e
      | Inr (first, st1) \<Rightarrow>
          (case Index_effect games st1 of
             Inl e \<Rightarrow> Inl e
           | Inr (second, st2) \<Rightarrow> Inr (first, second, st2)))"

text \<open>
  \<open>list()\<close> in the specification's words, to compare the effect with: go through the
  stored identifiers in their order, resolve each with \<open>findById\<close>, drop it if it is
  absent from the catalog, keep the game otherwise.
\<close>

fun list_spec :: "'a Game_scheme list \<Rightarrow> string list \<Rightarrow> 'a Game_scheme list" where
  "list_spec games [] = []"
| "list_spec games (i # ids) =
     (case findById games i of
        None \<Rightarrow> list_spec games ids
      | Some game \<Rightarrow> game # list_spec games ids)"

section \<open>A sample catalog\<close>

text \<open>
  The catalog \<open>~/data/games\<close> is data supplied at build time. The theorems below hold for
  every catalog; three entries serve as the concrete catalog of the examples.
\<close>

abbreviation sample_snake :: Game where
  "sample_snake \<equiv>
     \<lparr>id_game = ''snake'', slug = ''snake'', title = ''Snake'', category = ''Arcade'', featured = True\<rparr>"

abbreviation sample_chess :: Game where
  "sample_chess \<equiv>
     \<lparr>id_game = ''chess'', slug = ''chess'', title = ''Chess'', category = ''Board'', featured = False\<rparr>"

abbreviation sample_golf :: Game where
  "sample_golf \<equiv>
     \<lparr>id_game = ''golf'', slug = ''mini-golf'', title = ''Mini Golf'', category = ''Sports'', featured = True\<rparr>"

abbreviation sample_games :: "Game list" where
  "sample_games \<equiv> [sample_snake, sample_chess, sample_golf]"

section \<open>The storage layer\<close>

lemma asStrings_map_JString: "asStrings (map JString ids) = Some ids"
  by (induction ids) simp_all

lemma parseIds_stringify: "parseIds (JSON_stringify ids) = Inr ids"
  by (simp add: parseIds_def JSON_stringify_def asStrings_map_JString)

lemma getRecentlyPlayed_total: "\<exists>ids. getRecentlyPlayed st = Inr ids"
  by (cases st) (auto simp: getRecentlyPlayed_def split: option.split sum.split)

lemma getRecentlyPlayed_stringify:
  "getRecentlyPlayed (Available (Some (JSON_stringify ids))) = Inr ids"
  by (simp add: getRecentlyPlayed_def parseIds_stringify)

lemma getRecentlyPlayed_fresh: "getRecentlyPlayed (Available None) = Inr []"
  by (simp add: getRecentlyPlayed_def)

lemma getRecentlyPlayed_Unavailable: "getRecentlyPlayed Unavailable = Inr []"
  by (simp add: getRecentlyPlayed_def)

lemma getRecentlyPlayed_corrupt:
  "parseIds v = Inl e \<Longrightarrow> getRecentlyPlayed (Available (Some v)) = Inr []"
  by (simp add: getRecentlyPlayed_def)

lemma addToRecentlyPlayed_Available:
  "getRecentlyPlayed (Available v) = Inr old \<Longrightarrow>
   addToRecentlyPlayed capacity g (Available v) =
     Inr (Available (Some (JSON_stringify (take capacity (g # filter (\<lambda>i. i \<noteq> g) old)))))"
  by (simp add: addToRecentlyPlayed_def)

lemma addToRecentlyPlayed_Unavailable:
  "addToRecentlyPlayed capacity g Unavailable = Inr Unavailable"
  by (simp add: addToRecentlyPlayed_def getRecentlyPlayed_Unavailable)

lemma record_front:
  assumes "0 < capacity" and "getRecentlyPlayed (Available v) = Inr old"
  shows "addToRecentlyPlayed capacity g (Available v) =
           Inr (Available (Some (JSON_stringify (g # take (capacity - 1) (filter (\<lambda>i. i \<noteq> g) old)))))"
proof -
  from assms(1) obtain n where n: "capacity = Suc n" by (cases capacity) simp_all
  then have "take capacity (g # filter (\<lambda>i. i \<noteq> g) old)
               = g # take (capacity - 1) (filter (\<lambda>i. i \<noteq> g) old)" by simp
  with addToRecentlyPlayed_Available [OF assms(2), of capacity g] show ?thesis by simp
qed

section \<open>Resolution against the catalog\<close>

lemma resolve_list_spec:
  "map the (filter (\<lambda>game. game \<noteq> None) (map (\<lambda>i. find (\<lambda>game. id_game game = i) games) ids))
     = list_spec games ids"
  by (induction ids) (auto simp: findById_def split: option.split)

lemma Index_effect_list_spec:
  "getRecentlyPlayed st = Inr ids \<Longrightarrow> Index_effect games st = Inr (list_spec games ids, st)"
  unfolding Index_effect_def Let_def resolve_list_spec by simp

lemma list_spec_append:
  "list_spec games (xs @ ys) = list_spec games xs @ list_spec games ys"
  by (induction xs) (auto split: option.split)

lemma findById_Some_id: "findById games i = Some g \<Longrightarrow> id_game g = i \<and> g \<in> set games"
  by (auto simp: findById_def find_Some_iff)

lemma findById_None_iff: "findById games i = None \<longleftrightarrow> (\<forall>g \<in> set games. id_game g \<noteq> i)"
  by (auto simp: findById_def find_None_iff)

lemma list_spec_ids:
  "map id_game (list_spec games ids) = filter (\<lambda>i. \<exists>g \<in> set games. id_game g = i) ids"
proof (induction ids)
  case Nil
  then show ?case by simp
next
  case (Cons i ids)
  show ?case
  proof (cases "findById games i")
    case None
    then have "\<not> (\<exists>g \<in> set games. id_game g = i)" by (simp add: findById_None_iff)
    with None Cons.IH show ?thesis by simp
  next
    case (Some g)
    then have "id_game g = i \<and> g \<in> set games" by (rule findById_Some_id)
    then have "\<exists>g \<in> set games. id_game g = i" by blast
    with Some Cons.IH \<open>id_game g = i \<and> g \<in> set games\<close> show ?thesis by simp
  qed
qed

lemma list_spec_members:
  "g \<in> set (list_spec games ids) \<Longrightarrow> findById games (id_game g) = Some g \<and> id_game g \<in> set ids"
proof (induction ids)
  case Nil
  then show ?case by simp
next
  case (Cons i ids)
  show ?case
  proof (cases "findById games i")
    case None
    with Cons show ?thesis by simp
  next
    case (Some h)
    then have "id_game h = i" by (simp add: findById_Some_id)
    with Some Cons show ?thesis by auto
  qed
qed

lemma list_spec_count:
  "findById games i = Some g \<Longrightarrow> count_list (list_spec games ids) g = count_list ids i"
proof (induction ids)
  case Nil
  then show ?case by simp
next
  case (Cons j ids)
  show ?case
  proof (cases "findById games j")
    case None
    with Cons have "j \<noteq> i" by auto
    with None Cons show ?thesis by simp
  next
    case (Some h)
    then have hj: "id_game h = j" by (simp add: findById_Some_id)
    from Cons.prems have gi: "id_game g = i" by (simp add: findById_Some_id)
    show ?thesis
    proof (cases "j = i")
      case True
      with Some Cons.prems have "h = g" by simp
      with True Some Cons show ?thesis by simp
    next
      case False
      with hj gi have "h \<noteq> g" by auto
      with False Some Cons show ?thesis by simp
    qed
  qed
qed

section \<open>Sequences of \<open>record\<close> calls\<close>

lemma take_append_take: "take n (xs @ take n ys) = take n (xs @ ys)"
  by (simp add: min_def)

lemma record_all_bounded:
  assumes "getRecentlyPlayed (Available v) = Inr old" and "length old \<le> capacity"
  shows "\<exists>v' ids. record_all capacity gs (Available v) = Inr (Available v')
            \<and> getRecentlyPlayed (Available v') = Inr ids \<and> length ids \<le> capacity"
  using assms
proof (induction gs arbitrary: v old)
  case Nil
  then show ?case by simp
next
  case (Cons g gs)
  let ?new = "take capacity (g # filter (\<lambda>i. i \<noteq> g) old)"
  have step: "addToRecentlyPlayed capacity g (Available v) = Inr (Available (Some (JSON_stringify ?new)))"
    by (rule addToRecentlyPlayed_Available [OF Cons.prems(1)])
  have rd: "getRecentlyPlayed (Available (Some (JSON_stringify ?new))) = Inr ?new"
    by (rule getRecentlyPlayed_stringify)
  have len: "length ?new \<le> capacity" by simp
  from Cons.IH [OF rd len] step show ?case by simp
qed

lemma record_all_distinct:
  assumes "getRecentlyPlayed (Available v) = Inr old"
    and "distinct gs" and "set gs \<inter> set old = {}"
  shows "\<exists>v'. record_all capacity gs (Available v) = Inr (Available v')
           \<and> getRecentlyPlayed (Available v') = Inr (if gs = [] then old else take capacity (rev gs @ old))"
  using assms
proof (induction gs arbitrary: v old)
  case Nil
  then show ?case by simp
next
  case (Cons g gs)
  from Cons.prems have g_old: "g \<notin> set old" by simp
  then have flt: "filter (\<lambda>i. i \<noteq> g) old = old" by (induction old) auto
  let ?new = "take capacity (g # old)"
  have step: "addToRecentlyPlayed capacity g (Available v) = Inr (Available (Some (JSON_stringify ?new)))"
    using addToRecentlyPlayed_Available [OF Cons.prems(1), of capacity g] by (simp only: flt)
  have rd: "getRecentlyPlayed (Available (Some (JSON_stringify ?new))) = Inr ?new"
    by (rule getRecentlyPlayed_stringify)
  have d: "distinct gs" using Cons.prems by simp
  have "set ?new \<subseteq> insert g (set old)" using set_take_subset [of capacity "g # old"] by simp
  with Cons.prems have disj: "set gs \<inter> set ?new = {}" by auto
  from Cons.IH [OF rd d disj] obtain v' where
    v': "record_all capacity gs (Available (Some (JSON_stringify ?new))) = Inr (Available v')"
        "getRecentlyPlayed (Available v') = Inr (if gs = [] then ?new else take capacity (rev gs @ ?new))"
    by blast
  have "(if gs = [] then ?new else take capacity (rev gs @ ?new)) = take capacity (rev (g # gs) @ old)"
    using take_append_take [of capacity "rev gs" "g # old"] by simp
  with step v' show ?case by simp
qed

lemma record_distinct_overflow:
  assumes "distinct gs" and "length gs = Suc capacity"
  shows "take capacity (rev gs) = rev (tl gs)" and "hd gs \<notin> set (rev (tl gs))"
proof -
  from assms(2) obtain g rest where gs: "gs = g # rest" by (cases gs) simp_all
  with assms(2) have "length rest = capacity" by simp
  then show "take capacity (rev gs) = rev (tl gs)" using gs by simp
  from assms(1) gs show "hd gs \<notin> set (rev (tl gs))" by simp
qed

lemma record_a_b_a:
  assumes "2 \<le> capacity" and "a \<noteq> b"
  shows "record_all capacity [a, b, a] (Available None) = Inr (Available (Some (JSON_stringify [a, b])))"
proof -
  from assms(1) obtain n where n: "capacity = Suc (Suc n)"
    by (metis Suc_le_D numeral_2_eq_2 Suc_le_mono)
  have 1: "addToRecentlyPlayed capacity a (Available None) = Inr (Available (Some (JSON_stringify [a])))"
    using addToRecentlyPlayed_Available [OF getRecentlyPlayed_fresh, of capacity a] n by simp
  have 2: "addToRecentlyPlayed capacity b (Available (Some (JSON_stringify [a])))
             = Inr (Available (Some (JSON_stringify [b, a])))"
    using addToRecentlyPlayed_Available [OF getRecentlyPlayed_stringify, of capacity b "[a]"] n assms(2)
    by simp
  have 3: "addToRecentlyPlayed capacity a (Available (Some (JSON_stringify [b, a])))
             = Inr (Available (Some (JSON_stringify [a, b])))"
    using addToRecentlyPlayed_Available [OF getRecentlyPlayed_stringify, of capacity a "[b, a]"] n assms(2)
    by simp
  from 1 2 3 show ?thesis by simp
qed

lemma record_two_then_list:
  assumes "x \<noteq> y" and "2 \<le> capacity"
    and "findById games x = Some gx" and "findById games y = Some gy"
  shows "\<exists>st'. record_all capacity [x, y] (Available None) = Inr st'
            \<and> Index_effect games st' = Inr ([gy, gx], st')"
proof -
  have "distinct [x, y]" and "set [x, y] \<inter> set [] = {}" using assms(1) by simp_all
  from record_all_distinct [OF getRecentlyPlayed_fresh this, of capacity]
  obtain v' where rec: "record_all capacity [x, y] (Available None) = Inr (Available v')"
    and rd: "getRecentlyPlayed (Available v') = Inr (take capacity [y, x])" by auto
  from assms(2) have "take capacity [y, x] = [y, x]" by simp
  with rd have "getRecentlyPlayed (Available v') = Inr [y, x]" by simp
  then have "Index_effect games (Available v') = Inr (list_spec games [y, x], Available v')"
    by (rule Index_effect_list_spec)
  with assms(3,4) have "Index_effect games (Available v') = Inr ([gy, gx], Available v')"
    by simp
  with rec show ?thesis by blast
qed

section \<open>The recently-played list: \<open>record\<close>\<close>

text \<open>
  Claim C1. With a positive capacity and the storage available, whatever the store holds,
  \<open>record(g)\<close> writes back a sequence that has \<open>g\<close> at the front and
  nowhere else: the prior sequence without \<open>g\<close>, cut to the capacity, follows
  it, and no duplicate is introduced. From a fresh store and with room for two entries,
  \<open>record(a)\<close>, \<open>record(b)\<close>, \<open>record(a)\<close> for distinct
  \<open>a\<close> and \<open>b\<close> leave \<open>[a, b]\<close>.
\<close>

theorem record_moves_to_front:
  assumes "0 < capacity"
  shows "(\<exists>old rest. getRecentlyPlayed (Available v) = Inr old
            \<and> rest = take (capacity - 1) (filter (\<lambda>i. i \<noteq> g) old)
            \<and> addToRecentlyPlayed capacity g (Available v) = Inr (Available (Some (JSON_stringify (g # rest))))
            \<and> getRecentlyPlayed (Available (Some (JSON_stringify (g # rest)))) = Inr (g # rest)
            \<and> g \<notin> set rest
            \<and> count_list (g # rest) g = 1
            \<and> (distinct old \<longrightarrow> distinct (g # rest)))
         \<and> (2 \<le> capacity \<and> a \<noteq> b \<longrightarrow>
              record_all capacity [a, b, a] (Available None)
                = Inr (Available (Some (JSON_stringify [a, b]))))"
proof (intro conjI impI)
  obtain old where old: "getRecentlyPlayed (Available v) = Inr old"
    using getRecentlyPlayed_total by blast
  define rest where "rest = take (capacity - 1) (filter (\<lambda>i. i \<noteq> g) old)"
  have notin: "g \<notin> set rest"
    unfolding rest_def using in_set_takeD [of g "capacity - 1" "filter (\<lambda>i. i \<noteq> g) old"] by auto
  then have cnt: "count_list (g # rest) g = 1" by (simp add: count_list_0_iff)
  have dist: "distinct (g # rest)" if "distinct old"
    using that notin unfolding rest_def by simp
  have wr: "addToRecentlyPlayed capacity g (Available v) = Inr (Available (Some (JSON_stringify (g # rest))))"
    unfolding rest_def by (rule record_front [OF assms old])
  have rd: "getRecentlyPlayed (Available (Some (JSON_stringify (g # rest)))) = Inr (g # rest)"
    by (rule getRecentlyPlayed_stringify)
  from old rest_def wr rd notin cnt dist
  show "\<exists>old rest. getRecentlyPlayed (Available v) = Inr old
            \<and> rest = take (capacity - 1) (filter (\<lambda>i. i \<noteq> g) old)
            \<and> addToRecentlyPlayed capacity g (Available v) = Inr (Available (Some (JSON_stringify (g # rest))))
            \<and> getRecentlyPlayed (Available (Some (JSON_stringify (g # rest)))) = Inr (g # rest)
            \<and> g \<notin> set rest
            \<and> count_list (g # rest) g = 1
            \<and> (distinct old \<longrightarrow> distinct (g # rest))"
    by blast
  show "record_all capacity [a, b, a] (Available None) = Inr (Available (Some (JSON_stringify [a, b])))"
    if "2 \<le> capacity \<and> a \<noteq> b"
    using that by (intro record_a_b_a) simp_all
qed

theorem record_moves_to_front_witness:
  "(0::nat) < 10 \<and> (2::nat) \<le> 10 \<and> ''a'' \<noteq> ''b''
   \<and> record_all 10 [''a'', ''b'', ''a''] (Available None)
        = Inr (Available (Some (JSON_stringify [''a'', ''b''])))
   \<and> addToRecentlyPlayed 10 ''b'' (Available (Some (JSON_stringify [''a'', ''b'', ''c''])))
        = Inr (Available (Some (JSON_stringify [''b'', ''a'', ''c''])))"
proof -
  have h: "(0::nat) < 10" "(2::nat) \<le> 10 \<and> ''a'' \<noteq> ''b''" by simp_all
  from record_moves_to_front [OF h(1), of "Some (JSON_stringify [''a'', ''b'', ''c''])" "''b''" "''a''" "''b''"] h(2)
  have ex: "record_all 10 [''a'', ''b'', ''a''] (Available None)
        = Inr (Available (Some (JSON_stringify [''a'', ''b''])))"
    and "\<exists>old rest. getRecentlyPlayed (Available (Some (JSON_stringify [''a'', ''b'', ''c'']))) = Inr old
            \<and> rest = take (10 - 1) (filter (\<lambda>i. i \<noteq> ''b'') old)
            \<and> addToRecentlyPlayed 10 ''b'' (Available (Some (JSON_stringify [''a'', ''b'', ''c''])))
                 = Inr (Available (Some (JSON_stringify (''b'' # rest))))"
    by blast+
  then have "addToRecentlyPlayed 10 ''b'' (Available (Some (JSON_stringify [''a'', ''b'', ''c''])))
        = Inr (Available (Some (JSON_stringify [''b'', ''a'', ''c''])))"
    by (auto simp: getRecentlyPlayed_stringify)
  with h ex show ?thesis by simp
qed

text \<open>
  Claim C2. From a fresh store every sequence of \<open>record\<close> calls succeeds and
  leaves a persisted sequence no longer than the capacity. When the calls record capacity +
  1 distinct identifiers, exactly capacity entries remain: all but the first recorded one,
  the most recent first.
\<close>

theorem record_all_capacity_bound:
  "\<exists>st' ids. record_all capacity gs (Available None) = Inr st'
      \<and> getRecentlyPlayed st' = Inr ids
      \<and> length ids \<le> capacity
      \<and> (distinct gs \<and> length gs = Suc capacity \<longrightarrow>
            ids = rev (tl gs) \<and> length ids = capacity \<and> hd gs \<notin> set ids \<and> set ids = set (tl gs))"
proof -
  have "length ([] :: string list) \<le> capacity" by simp
  from record_all_bounded [OF getRecentlyPlayed_fresh this, of gs]
  obtain v' ids where run: "record_all capacity gs (Available None) = Inr (Available v')"
    and rd: "getRecentlyPlayed (Available v') = Inr ids" and len: "length ids \<le> capacity"
    by blast
  have over: "ids = rev (tl gs) \<and> length ids = capacity \<and> hd gs \<notin> set ids \<and> set ids = set (tl gs)"
    if d: "distinct gs" and l: "length gs = Suc capacity"
  proof -
    have "set gs \<inter> set [] = {}" by simp
    from record_all_distinct [OF getRecentlyPlayed_fresh d this, of capacity] run rd l
    have "ids = take capacity (rev gs)" by auto
    with record_distinct_overflow [OF d l] have ids: "ids = rev (tl gs)" and "hd gs \<notin> set ids"
      by simp_all
    moreover from ids l have "length ids = capacity" by simp
    moreover from ids have "set ids = set (tl gs)" by simp
    ultimately show ?thesis by blast
  qed
  from run rd len over show ?thesis by blast
qed

theorem record_all_capacity_bound_witness:
  "distinct [''a'', ''b'', ''c'', ''d''] \<and> length [''a'', ''b'', ''c'', ''d''] = Suc 3
   \<and> (\<exists>st'. record_all 3 [''a'', ''b'', ''c'', ''d''] (Available None) = Inr st'
         \<and> getRecentlyPlayed st' = Inr [''d'', ''c'', ''b''])"
proof -
  have h: "distinct [''a'', ''b'', ''c'', ''d''] \<and> length [''a'', ''b'', ''c'', ''d''] = Suc 3"
    by simp
  from record_all_capacity_bound [of 3 "[''a'', ''b'', ''c'', ''d'']"] h
  have "\<exists>st'. record_all 3 [''a'', ''b'', ''c'', ''d''] (Available None) = Inr st'
         \<and> getRecentlyPlayed st' = Inr (rev (tl [''a'', ''b'', ''c'', ''d'']))"
    by blast
  with h show ?thesis by simp
qed

text \<open>
  Claim C4. When the stored value does not parse as a sequence of strings,
  \<open>record(g)\<close> raises nothing and writes the single-entry list
  \<open>[g]\<close> (the capacity being positive), and \<open>list()\<close> returns the
  empty sequence and leaves the value as it is.
\<close>

theorem corrupt_storage_fallback:
  assumes "parseIds v = Inl e" and "0 < capacity"
  shows "addToRecentlyPlayed capacity g (Available (Some v)) = Inr (Available (Some (JSON_stringify [g])))
         \<and> getRecentlyPlayed (Available (Some (JSON_stringify [g]))) = Inr [g]
         \<and> Index_effect games (Available (Some v)) = Inr ([], Available (Some v))"
proof -
  have rd: "getRecentlyPlayed (Available (Some v)) = Inr []"
    using assms(1) by (rule getRecentlyPlayed_corrupt)
  from record_front [OF assms(2) rd, of g]
  have "addToRecentlyPlayed capacity g (Available (Some v)) = Inr (Available (Some (JSON_stringify [g])))"
    by simp
  moreover have "getRecentlyPlayed (Available (Some (JSON_stringify [g]))) = Inr [g]"
    by (rule getRecentlyPlayed_stringify)
  moreover from Index_effect_list_spec [OF rd, of games]
  have "Index_effect games (Available (Some v)) = Inr ([], Available (Some v))" by simp
  ultimately show ?thesis by blast
qed

theorem corrupt_storage_fallback_witness:
  "parseIds (Garbled ''[snake,'') = Inl SyntaxError
   \<and> parseIds (Encoded (JArray [JString ''snake'', JNumber 7])) = Inl NotAStringArray
   \<and> addToRecentlyPlayed 10 ''chess'' (Available (Some (Garbled ''[snake,'')))
        = Inr (Available (Some (JSON_stringify [''chess''])))
   \<and> Index_effect sample_games (Available (Some (Encoded (JArray [JString ''snake'', JNumber 7]))))
        = Inr ([], Available (Some (Encoded (JArray [JString ''snake'', JNumber 7]))))"
proof -
  have h1: "parseIds (Garbled ''[snake,'') = Inl SyntaxError" by (simp add: parseIds_def)
  have h2: "parseIds (Encoded (JArray [JString ''snake'', JNumber 7])) = Inl NotAStringArray"
    by (simp add: parseIds_def)
  have c: "(0::nat) < 10" by simp
  from corrupt_storage_fallback [OF h1 c, of "''chess''" sample_games]
       corrupt_storage_fallback [OF h2 c, of "''chess''" sample_games] h1 h2
  show ?thesis by blast
qed

text \<open>
  Claim C9. With the storage unavailable, \<open>record(g)\<close> completes and changes
  nothing, the read returns the empty sequence, and \<open>list()\<close> returns the empty
  sequence; none of them raises an error.
\<close>

theorem storage_unavailable_degrades:
  "addToRecentlyPlayed capacity g Unavailable = Inr Unavailable
   \<and> getRecentlyPlayed Unavailable = Inr []
   \<and> Index_effect games Unavailable = Inr ([], Unavailable)"
proof -
  from Index_effect_list_spec [OF getRecentlyPlayed_Unavailable, of games]
  have "Index_effect games Unavailable = Inr ([], Unavailable)" by simp
  with addToRecentlyPlayed_Unavailable getRecentlyPlayed_Unavailable show ?thesis by blast
qed

section \<open>The game page's loader\<close>

lemma find_first_match:
  "find P xs = Some x \<Longrightarrow> \<exists>pre post. xs = pre @ x # post \<and> P x \<and> (\<forall>y \<in> set pre. \<not> P y)"
proof (induction xs)
  case Nil
  then show ?case by simp
next
  case (Cons a xs)
  show ?case
  proof (cases "P a")
    case True
    with Cons.prems have "a = x" by simp
    with True have "a # xs = [] @ x # xs \<and> P x \<and> (\<forall>y \<in> set []. \<not> P y)" by simp
    then show ?thesis by blast
  next
    case False
    with Cons.prems have "find P xs = Some x" by simp
    from Cons.IH [OF this] obtain pre post
      where "xs = pre @ x # post" "P x" "\<forall>y \<in> set pre. \<not> P y" by blast
    with False have "a # xs = (a # pre) @ x # post \<and> P x \<and> (\<forall>y \<in> set (a # pre). \<not> P y)"
      by simp
    then show ?thesis by blast
  qed
qed

text \<open>
  Claim C5. The loader of the game page fails exactly when no catalog entry has the
  requested \<open>gameId\<close> as its \<open>id\<close>, and the failure is the 404
  response \<open>Game not found\<close>. When an entry matches, the loader returns the
  first matching entry of the catalog; with identifiers unique across the catalog, that is
  the one entry with this \<open>id\<close>.
\<close>

theorem loader_gameId_not_found_iff:
  "((\<exists>r. loader_gameId games params = Inl r)
      \<longleftrightarrow> \<not> (\<exists>g \<in> set games. Some (id_game g) = gameId params))
   \<and> (loader_gameId games params = Inl (Response ''Game not found'' 404)
      \<longleftrightarrow> \<not> (\<exists>g \<in> set games. Some (id_game g) = gameId params))
   \<and> ((\<exists>g \<in> set games. Some (id_game g) = gameId params) \<longrightarrow>
        (\<exists>pre game post. games = pre @ game # post
           \<and> Some (id_game game) = gameId params
           \<and> (\<forall>g \<in> set pre. Some (id_game g) \<noteq> gameId params)
           \<and> loader_gameId games params = Inr game))
   \<and> (distinct (map id_game games) \<longrightarrow>
        (\<forall>g \<in> set games. Some (id_game g) = gameId params \<longrightarrow> loader_gameId games params = Inr g))"
proof -
  let ?P = "\<lambda>g. Some (id_game g) = gameId params"
  have none: "find ?P games = None \<longleftrightarrow> \<not> (\<exists>g \<in> set games. ?P g)"
    by (auto simp: find_None_iff)
  have a: "(\<exists>r. loader_gameId games params = Inl r) \<longleftrightarrow> \<not> (\<exists>g \<in> set games. ?P g)"
    unfolding none [symmetric] by (simp add: loader_gameId_def split: option.split)
  have b: "loader_gameId games params = Inl (Response ''Game not found'' 404)
             \<longleftrightarrow> \<not> (\<exists>g \<in> set games. ?P g)"
    unfolding none [symmetric] by (simp add: loader_gameId_def split: option.split)
  have c: "\<exists>pre game post. games = pre @ game # post \<and> ?P game
             \<and> (\<forall>g \<in> set pre. \<not> ?P g) \<and> loader_gameId games params = Inr game"
    if "\<exists>g \<in> set games. ?P g"
  proof -
    from that none obtain game where game: "find ?P games = Some game" by fastforce
    from find_first_match [OF this] obtain pre post
      where "games = pre @ game # post" "?P game" "\<forall>g \<in> set pre. \<not> ?P g" by blast
    moreover from game have "loader_gameId games params = Inr game"
      by (simp add: loader_gameId_def)
    ultimately show ?thesis by blast
  qed
  have d: "loader_gameId games params = Inr g"
    if dist: "distinct (map id_game games)" and g: "g \<in> set games" "?P g" for g
  proof -
    from g have "\<exists>g \<in> set games. ?P g" by blast
    from c [OF this] obtain pre game post where
      *: "games = pre @ game # post" "?P game" "loader_gameId games params = Inr game" by blast
    from g(2) *(2) have same: "id_game g = id_game game" by (metis option.inject)
    from * have "game \<in> set games" by simp
    with dist g(1) same have "g = game" by (meson distinct_map inj_onD)
    with * show ?thesis by simp
  qed
  from a b c d show ?thesis by blast
qed

theorem loader_gameId_not_found_iff_witness:
  "(\<exists>g \<in> set sample_games. Some (id_game g) = gameId \<lparr>gameId = Some ''chess''\<rparr>)
   \<and> distinct (map id_game sample_games)
   \<and> loader_gameId sample_games \<lparr>gameId = Some ''chess''\<rparr> = Inr sample_chess
   \<and> loader_gameId sample_games \<lparr>gameId = Some ''pong''\<rparr> = Inl (Response ''Game not found'' 404)
   \<and> loader_gameId sample_games \<lparr>gameId = None\<rparr> = Inl (Response ''Game not found'' 404)"
proof -
  have h: "sample_chess \<in> set sample_games"
    "Some (id_game sample_chess) = gameId \<lparr>gameId = Some ''chess''\<rparr>"
    "distinct (map id_game sample_games)"
    by simp_all
  from loader_gameId_not_found_iff [of sample_games "\<lparr>gameId = Some ''chess''\<rparr>"] h
  have found: "loader_gameId sample_games \<lparr>gameId = Some ''chess''\<rparr> = Inr sample_chess"
    by blast
  have "\<not> (\<exists>g \<in> set sample_games. Some (id_game g) = gameId \<lparr>gameId = Some ''pong''\<rparr>)"
    by simp
  with loader_gameId_not_found_iff [of sample_games "\<lparr>gameId = Some ''pong''\<rparr>"]
  have missing: "loader_gameId sample_games \<lparr>gameId = Some ''pong''\<rparr>
                   = Inl (Response ''Game not found'' 404)"
    by blast
  have "\<not> (\<exists>g \<in> set sample_games. Some (id_game g) = gameId \<lparr>gameId = None\<rparr>)"
    by simp
  with loader_gameId_not_found_iff [of sample_games "\<lparr>gameId = None\<rparr>"]
  have undef: "loader_gameId sample_games \<lparr>gameId = None\<rparr>
                   = Inl (Response ''Game not found'' 404)"
    by blast
  from h found missing undef show ?thesis by blast
qed

section \<open>The home page's loader\<close>

lemma filterFeatured_length:
  "length (filterFeatured limit games) = min limit (length (filter featured games))"
  by (simp add: filterFeatured_def min.commute)

lemma filterFeatured_prefix: "prefix (filterFeatured limit games) (filter featured games)"
  unfolding filterFeatured_def by (rule take_is_prefix)

lemma filterFeatured_members:
  "g \<in> set (filterFeatured limit games) \<Longrightarrow> featured g \<and> g \<in> set games"
proof -
  assume "g \<in> set (filterFeatured limit games)"
  then have "g \<in> set (filter featured games)"
    unfolding filterFeatured_def by (rule in_set_takeD)
  then show ?thesis by simp
qed

lemma filterFeatured_subseq: "subseq (filterFeatured limit games) games"
proof -
  have "subseq (filterFeatured limit games) (filter featured games)"
    using filterFeatured_prefix by (rule prefix_imp_subseq)
  also have "subseq (filter featured games) games" by (rule subseq_filter_left)
  finally show ?thesis .
qed

lemma filterFeatured_all:
  "length (filter featured games) \<le> limit \<Longrightarrow> filterFeatured limit games = filter featured games"
  by (simp add: filterFeatured_def)

text \<open>
  Claim C6. For every catalog and every limit, \<open>filterFeatured(limit)\<close> returns
  the first \<open>limit\<close> featured entries in the order of the catalog: it has as
  many entries as the limit allows, each is featured and from the catalog, it is a prefix of
  the featured entries and a subsequence of the catalog, and it is all the featured entries
  when there are no more than \<open>limit\<close> of them. The loader of the home page is
  the instance with limit 3.
\<close>

theorem filterFeatured_spec:
  "loader_index games = filterFeatured 3 games
   \<and> length (filterFeatured limit games) = min limit (length (filter featured games))
   \<and> (\<forall>g \<in> set (filterFeatured limit games). featured g \<and> g \<in> set games)
   \<and> prefix (filterFeatured limit games) (filter featured games)
   \<and> subseq (filterFeatured limit games) games
   \<and> (length (filter featured games) \<le> limit \<longrightarrow> filterFeatured limit games = filter featured games)"
proof (intro conjI ballI impI)
  show "loader_index games = filterFeatured 3 games"
    by (simp add: loader_index_def filterFeatured_def)
  show "length (filterFeatured limit games) = min limit (length (filter featured games))"
    by (rule filterFeatured_length)
  show "prefix (filterFeatured limit games) (filter featured games)"
    by (rule filterFeatured_prefix)
  show "subseq (filterFeatured limit games) games"
    by (rule filterFeatured_subseq)
  show "filterFeatured limit games = filter featured games"
    if "length (filter featured games) \<le> limit"
    using that by (rule filterFeatured_all)
  show "featured g" if "g \<in> set (filterFeatured limit games)" for g
    using filterFeatured_members [OF that] by simp
  show "g \<in> set games" if "g \<in> set (filterFeatured limit games)" for g
    using filterFeatured_members [OF that] by simp
qed

theorem filterFeatured_spec_witness:
  "length (filter featured sample_games) \<le> 5
   \<and> filterFeatured 5 sample_games = [sample_snake, sample_golf]
   \<and> filterFeatured 1 sample_games = [sample_snake]
   \<and> loader_index sample_games = [sample_snake, sample_golf]"
proof -
  have few: "length (filter featured sample_games) \<le> 5" by simp
  from filterFeatured_spec [of sample_games 5] few
  have all: "filterFeatured 5 sample_games = filter featured sample_games" by blast
  have one: "filterFeatured 1 sample_games = [sample_snake]" by (simp add: filterFeatured_def)
  have home: "loader_index sample_games = [sample_snake, sample_golf]" by (simp add: loader_index_def)
  from few all one home show ?thesis by simp
qed

section \<open>The home page's effect\<close>

text \<open>
  Claim C3. The effect reads the stored identifiers and returns the games they resolve to by
  \<open>findById\<close>, the unresolvable ones dropped and the stored order kept: the
  identifiers of the result are the stored identifiers that occur in the catalog, in the
  same order, and every game of the result is the entry its identifier resolves to. After
  \<open>record(x)\<close> and \<open>record(y)\<close> on a fresh store, for distinct
  \<open>x\<close> and \<open>y\<close> that both resolve and a capacity of at least two,
  the effect returns the game of \<open>y\<close> followed by the game of \<open>x\<close>.
\<close>

theorem Index_effect_resolves_in_order:
  "(\<exists>ids. getRecentlyPlayed st = Inr ids \<and> Index_effect games st = Inr (list_spec games ids, st))
   \<and> map id_game (list_spec games ids) = filter (\<lambda>i. \<exists>g \<in> set games. id_game g = i) ids
   \<and> (\<forall>g \<in> set (list_spec games ids). findById games (id_game g) = Some g)
   \<and> (x \<noteq> y \<and> 2 \<le> capacity \<and> findById games x = Some gx \<and> findById games y = Some gy \<longrightarrow>
        (\<exists>st'. record_all capacity [x, y] (Available None) = Inr st'
            \<and> Index_effect games st' = Inr ([gy, gx], st')))"
proof (intro conjI ballI impI)
  obtain ids' where ids': "getRecentlyPlayed st = Inr ids'"
    using getRecentlyPlayed_total by blast
  then have "Index_effect games st = Inr (list_spec games ids', st)"
    by (rule Index_effect_list_spec)
  with ids' show "\<exists>ids. getRecentlyPlayed st = Inr ids \<and> Index_effect games st = Inr (list_spec games ids, st)"
    by blast
  show "map id_game (list_spec games ids) = filter (\<lambda>i. \<exists>g \<in> set games. id_game g = i) ids"
    by (rule list_spec_ids)
  show "findById games (id_game g) = Some g" if "g \<in> set (list_spec games ids)" for g
    using list_spec_members [OF that] by simp
  show "\<exists>st'. record_all capacity [x, y] (Available None) = Inr st'
            \<and> Index_effect games st' = Inr ([gy, gx], st')"
    if "x \<noteq> y \<and> 2 \<le> capacity \<and> findById games x = Some gx \<and> findById games y = Some gy"
    using that by (intro record_two_then_list) simp_all
qed

theorem Index_effect_resolves_in_order_witness:
  "''chess'' \<noteq> ''snake'' \<and> (2::nat) \<le> 10
   \<and> findById sample_games ''chess'' = Some sample_chess
   \<and> findById sample_games ''snake'' = Some sample_snake
   \<and> (\<exists>st'. record_all 10 [''chess'', ''snake''] (Available None) = Inr st'
          \<and> Index_effect sample_games st' = Inr ([sample_snake, sample_chess], st'))"
proof -
  have h: "''chess'' \<noteq> ''snake'' \<and> (2::nat) \<le> 10
           \<and> findById sample_games ''chess'' = Some sample_chess
           \<and> findById sample_games ''snake'' = Some sample_snake"
    by (simp add: findById_def)
  from Index_effect_resolves_in_order
    [of "Available None" sample_games "[]" "''chess''" "''snake''" 10 sample_chess sample_snake] h
  have "\<exists>st'. record_all 10 [''chess'', ''snake''] (Available None) = Inr st'
          \<and> Index_effect sample_games st' = Inr ([sample_snake, sample_chess], st')"
    by blast
  with h show ?thesis by blast
qed

text \<open>
  Claim C7. For every store the effect raises no error and leaves the store as it found it.
  With an identifier in the stored sequence that the catalog does not have, the effect
  returns the games of the other identifiers, and the stored sequence read afterwards still
  holds the dangling identifier.
\<close>

theorem Index_effect_leaves_storage:
  "(\<exists>recentGames. Index_effect games st = Inr (recentGames, st))
   \<and> (findById games i = None \<longrightarrow>
        Index_effect games (Available (Some (JSON_stringify (xs @ i # ys))))
          = Inr (list_spec games xs @ list_spec games ys, Available (Some (JSON_stringify (xs @ i # ys))))
        \<and> getRecentlyPlayed (Available (Some (JSON_stringify (xs @ i # ys)))) = Inr (xs @ i # ys))"
proof (intro conjI impI)
  obtain ids where ids: "getRecentlyPlayed st = Inr ids"
    using getRecentlyPlayed_total by blast
  then have "Index_effect games st = Inr (list_spec games ids, st)"
    by (rule Index_effect_list_spec)
  then show "\<exists>recentGames. Index_effect games st = Inr (recentGames, st)" by blast
  show rd: "getRecentlyPlayed (Available (Some (JSON_stringify (xs @ i # ys)))) = Inr (xs @ i # ys)"
    by (rule getRecentlyPlayed_stringify)
  show "Index_effect games (Available (Some (JSON_stringify (xs @ i # ys))))
          = Inr (list_spec games xs @ list_spec games ys, Available (Some (JSON_stringify (xs @ i # ys))))"
    if "findById games i = None"
    using that Index_effect_list_spec [OF rd, of games] by (simp add: list_spec_append)
qed

theorem Index_effect_leaves_storage_witness:
  "findById sample_games ''retired'' = None
   \<and> Index_effect sample_games (Available (Some (JSON_stringify [''golf'', ''retired'', ''chess''])))
       = Inr ([sample_golf, sample_chess],
              Available (Some (JSON_stringify [''golf'', ''retired'', ''chess''])))"
proof -
  have h: "findById sample_games ''retired'' = None" by (simp add: findById_def)
  from Index_effect_leaves_storage
         [of sample_games "Available None" "''retired''" "[''golf'']" "[''chess'']"] h
  have "Index_effect sample_games (Available (Some (JSON_stringify ([''golf''] @ ''retired'' # [''chess'']))))
          = Inr (list_spec sample_games [''golf''] @ list_spec sample_games [''chess''],
                 Available (Some (JSON_stringify ([''golf''] @ ''retired'' # [''chess'']))))"
    by blast
  with h show ?thesis by (simp add: findById_def)
qed

text \<open>
  Claim C8. On a fresh store the effect returns the empty sequence. For every store, two
  runs of the effect in a row both succeed, return the same games, and leave the store as it
  was.
\<close>

theorem Index_effect_pure_read:
  "Index_effect games (Available None) = Inr ([], Available None)
   \<and> (\<exists>recentGames. Index_effect games st = Inr (recentGames, st)
         \<and> Index_effect_twice games st = Inr (recentGames, recentGames, st))"
proof -
  from Index_effect_list_spec [OF getRecentlyPlayed_fresh, of games]
  have fresh: "Index_effect games (Available None) = Inr ([], Available None)" by simp
  obtain ids where ids: "getRecentlyPlayed st = Inr ids"
    using getRecentlyPlayed_total by blast
  then have once: "Index_effect games st = Inr (list_spec games ids, st)"
    by (rule Index_effect_list_spec)
  then have "Index_effect_twice games st = Inr (list_spec games ids, list_spec games ids, st)"
    by (simp add: Index_effect_twice_def)
  with fresh once show ?thesis by blast
qed

text \<open>
  Claim C10. The effect does not deduplicate: when the stored sequence holds an identifier
  twice and the catalog resolves it, the resolved game stands in the result at both
  positions, and it occurs in the result as often as its identifier occurs in the stored
  sequence.
\<close>

theorem Index_effect_no_dedup:
  assumes "findById games i = Some g"
    and "getRecentlyPlayed st = Inr (xs @ i # ys @ i # zs)"
  shows "Index_effect games st
           = Inr (list_spec games xs @ g # list_spec games ys @ g # list_spec games zs, st)
         \<and> count_list (list_spec games (xs @ i # ys @ i # zs)) g = count_list (xs @ i # ys @ i # zs) i
         \<and> 2 \<le> count_list (list_spec games (xs @ i # ys @ i # zs)) g"
proof -
  have "list_spec games (xs @ i # ys @ i # zs)
          = list_spec games xs @ g # list_spec games ys @ g # list_spec games zs"
    using assms(1) by (simp add: list_spec_append)
  with Index_effect_list_spec [OF assms(2), of games]
  have a: "Index_effect games st
           = Inr (list_spec games xs @ g # list_spec games ys @ g # list_spec games zs, st)"
    by simp
  have b: "count_list (list_spec games (xs @ i # ys @ i # zs)) g = count_list (xs @ i # ys @ i # zs) i"
    using assms(1) by (rule list_spec_count)
  have "2 \<le> count_list (xs @ i # ys @ i # zs) i" by simp
  with a b show ?thesis by simp
qed

theorem Index_effect_no_dedup_witness:
  "findById sample_games ''golf'' = Some sample_golf
   \<and> getRecentlyPlayed (Available (Some (JSON_stringify [''golf'', ''snake'', ''golf''])))
        = Inr [''golf'', ''snake'', ''golf'']
   \<and> Index_effect sample_games (Available (Some (JSON_stringify [''golf'', ''snake'', ''golf''])))
        = Inr ([sample_golf, sample_snake, sample_golf],
               Available (Some (JSON_stringify [''golf'', ''snake'', ''golf''])))"
proof -
  have h1: "findById sample_games ''golf'' = Some sample_golf" by (simp add: findById_def)
  have h2: "getRecentlyPlayed (Available (Some (JSON_stringify ([] @ ''golf'' # [''snake''] @ ''golf'' # []))))
              = Inr ([] @ ''golf'' # [''snake''] @ ''golf'' # [])"
    by (rule getRecentlyPlayed_stringify)
  from Index_effect_no_dedup [OF h1 h2]
  have "Index_effect sample_games (Available (Some (JSON_stringify ([] @ ''golf'' # [''snake''] @ ''golf'' # []))))
           = Inr (list_spec sample_games [] @ sample_golf # list_spec sample_games [''snake'']
                    @ sample_golf # list_spec sample_games [],
                  Available (Some (JSON_stringify ([] @ ''golf'' # [''snake''] @ ''golf'' # []))))"
    by blast
  with h1 h2 show ?thesis by (simp add: findById_def)
qed

end
